theory Spec2Isabelle
  imports Complex_Main "HOL-Library.Multiset"
begin

section \<open>Strings, sets and errors of the runtime\<close>

text \<open>
  The shape extractor and the diff analyzer of \<^verbatim>\<open>src/diff/analyzer.ts\<close> are embedded
  function by function. JavaScript strings are modelled as \<^typ>\<open>string\<close>: the code only
  concatenates them, compares them, tests them for emptiness and splits them at dots.
  An exception of the runtime is a value of type \<open>error\<close>; a function that can raise
  returns \<open>error + 'a\<close>.
\<close>

datatype error = TypeError

text \<open>
  A \<^verbatim>\<open>Set\<close> of strings iterates in insertion order, so it is a list without
  repetition: \<^verbatim>\<open>add\<close> appends an element that is not yet a member.
\<close>

definition set_add :: "'a list \<Rightarrow> 'a \<Rightarrow> 'a list" where
  "set_add xs x = (if x \<in> set xs then xs else xs @ [x])"

text \<open>\<^verbatim>\<open>Array.prototype.join\<close> with a separator.\<close>

fun join :: "string \<Rightarrow> string list \<Rightarrow> string" where
  "join sep [] = []"
| "join sep [x] = x"
| "join sep (x # y # ys) = x @ sep @ join sep (y # ys)"

text \<open>
  \<^verbatim>\<open>String.prototype.split\<close> at a one-character separator: the empty string splits
  into one empty segment.
\<close>

fun split :: "char \<Rightarrow> string \<Rightarrow> string list" where
  "split c [] = [[]]"
| "split c (x # xs) =
     (if x = c then [] # split c xs
      else (case split c xs of w # ws \<Rightarrow> (x # w) # ws | [] \<Rightarrow> [[x]]))"

text \<open>The decimal numeral a template literal prints for a non-negative integer.\<close>

definition digit_char :: "nat \<Rightarrow> char" where
  "digit_char d = ''0123456789'' ! d"

fun string_of_nat :: "nat \<Rightarrow> string" where
  "string_of_nat n =
     (if n < 10 then [digit_char n] else string_of_nat (n div 10) @ [digit_char (n mod 10)])"

declare string_of_nat.simps [simp del]

definition apostrophe :: char where
  "apostrophe = CHR 0x27"

section \<open>Decoded JSON values and shapes\<close>

text \<open>
  The argument of \<^verbatim>\<open>extractShape\<close> is typed \<^verbatim>\<open>any\<close>. \<open>JObject\<close> lists the own
  enumerable properties of a plain object, under distinct keys, in the order a
  \<^verbatim>\<open>for ... in\<close> loop visits them. A number is a real: the code reads nothing of it
  but its type. \<open>JOther\<close> is a value that is not callable and whose \<^verbatim>\<open>typeof\<close> is
  none of object, number, boolean and string (a symbol or a bigint).
\<close>

datatype json =
    JNull
  | JUndefined
  | JNumber real
  | JString string
  | JBoolean bool
  | JArray "json list"
  | JObject "(string \<times> json) list"
  | JOther

text \<open>
  \<^verbatim>\<open>ShapeValue = string | ShapeObject | ShapeArray | null\<close>. An object shape carries its
  own enumerable properties in enumeration order and its prototype: \<open>None\<close> is the
  default \<^verbatim>\<open>Object.prototype\<close>, \<open>Some p\<close> an object or array shape \<open>p\<close> that
  \<^verbatim>\<open>extractShape\<close> installed (see \<open>assignProp\<close> below).
\<close>

datatype ShapeValue =
    Tag string
  | ShapeObject "(string \<times> ShapeValue) list" "ShapeValue option"
  | ShapeArray "ShapeValue list"
  | Null

text \<open>\<^verbatim>\<open>getTypeName\<close> (lines 19 to 34), in the order of its tests.\<close>

definition Number_isInteger :: "real \<Rightarrow> bool" where
  "Number_isInteger x \<longleftrightarrow> of_int \<lfloor>x\<rfloor> = x"

fun getTypeName :: "json \<Rightarrow> string" where
  "getTypeName JNull = ''null''"
| "getTypeName JUndefined = ''undefined''"
| "getTypeName (JArray arr) = ''array''"
| "getTypeName (JObject props) = ''object''"
| "getTypeName (JNumber x) = (if Number_isInteger x then ''number'' else ''number'')"
| "getTypeName (JBoolean b) = ''boolean''"
| "getTypeName (JString s) = ''string''"
| "getTypeName JOther = ''unknown''"

text \<open>
  \<^verbatim>\<open>jsonObject.hasOwnProperty(key)\<close> looks the method up on the object itself first:
  an own property of that name shadows \<^verbatim>\<open>Object.prototype.hasOwnProperty\<close>, and
  calling its value, which is not a function, raises a \<^verbatim>\<open>TypeError\<close>.
\<close>

definition hasOwnProperty :: "(string \<times> json) list \<Rightarrow> string \<Rightarrow> error + bool" where
  "hasOwnProperty jsonObject key =
     (case map_of jsonObject ''hasOwnProperty'' of
        Some v \<Rightarrow> Inl TypeError
      | None \<Rightarrow> Inr (key \<in> fst ` set jsonObject))"

text \<open>
  \<^verbatim>\<open>shape[key] = v\<close> on the object under construction. The key \<^verbatim>\<open>__proto__\<close> is
  never stored: the assignment reaches the accessor of \<^verbatim>\<open>Object.prototype\<close>, which
  replaces the prototype when \<open>v\<close> is an object or an array and ignores any other
  value. Every other key becomes an own property, overwritten in place when present.
\<close>

fun putProp :: "(string \<times> 'v) list \<Rightarrow> string \<Rightarrow> 'v \<Rightarrow> (string \<times> 'v) list" where
  "putProp [] key v = [(key, v)]"
| "putProp ((k, w) # ps) key v = (if k = key then (k, v) # ps else (k, w) # putProp ps key v)"

fun assignProp ::
  "(string \<times> ShapeValue) list \<times> ShapeValue option \<Rightarrow> string \<Rightarrow> ShapeValue \<Rightarrow>
   (string \<times> ShapeValue) list \<times> ShapeValue option" where
  "assignProp (props, proto) key v =
     (if key = ''__proto__'' then
        (case v of
           ShapeObject ps pr \<Rightarrow> (props, Some v)
         | ShapeArray xs \<Rightarrow> (props, Some v)
         | _ \<Rightarrow> (props, proto))
      else (putProp props key v, proto))"

definition wrap :: "error + ShapeValue \<Rightarrow> error + ShapeValue" where
  "wrap r = (case r of Inl e \<Rightarrow> Inl e | Inr s \<Rightarrow> Inr (ShapeArray [s]))"

text \<open>
  \<^verbatim>\<open>extractArrayShape\<close> (lines 40 to 55) and \<^verbatim>\<open>extractShape\<close> (lines 72 to 111).
  \<open>extractFields jsonObject rest shape\<close> is the \<^verbatim>\<open>for (const key in jsonObject)\<close> loop
  of \<^verbatim>\<open>extractShape\<close> with \<open>rest\<close> still to visit. The patterns \<open>JObject\<close> and
  \<open>JArray\<close> are the tests \<^verbatim>\<open>getTypeName(...) === 'object'\<close> and \<^verbatim>\<open>=== 'array'\<close>
  (lemma \<open>getTypeName_object\<close> and \<open>getTypeName_array\<close>).
\<close>

function extractArrayShape :: "json list \<Rightarrow> error + ShapeValue"
  and extractShape :: "json \<Rightarrow> error + ShapeValue"
  and extractFields ::
    "(string \<times> json) list \<Rightarrow> (string \<times> json) list \<Rightarrow>
     (string \<times> ShapeValue) list \<times> ShapeValue option \<Rightarrow> error + ShapeValue"
where
  "extractArrayShape [] = Inr (ShapeArray [Tag ''unknown''])"
| "extractArrayShape (JObject props # elements) = wrap (extractShape (JObject props))"
| "extractArrayShape (JArray arr # elements) = wrap (extractArrayShape arr)"
| "extractArrayShape (JNull # elements) = Inr (ShapeArray [Tag (getTypeName JNull)])"
| "extractArrayShape (JUndefined # elements) = Inr (ShapeArray [Tag (getTypeName JUndefined)])"
| "extractArrayShape (JNumber x # elements) = Inr (ShapeArray [Tag (getTypeName (JNumber x))])"
| "extractArrayShape (JString s # elements) = Inr (ShapeArray [Tag (getTypeName (JString s))])"
| "extractArrayShape (JBoolean b # elements) = Inr (ShapeArray [Tag (getTypeName (JBoolean b))])"
| "extractArrayShape (JOther # elements) = Inr (ShapeArray [Tag (getTypeName JOther)])"
| "extractShape JNull = Inr (Tag ''null'')"
| "extractShape JUndefined = Inr (Tag ''undefined'')"
| "extractShape (JNumber x) = Inr (Tag (getTypeName (JNumber x)))"
| "extractShape (JString s) = Inr (Tag (getTypeName (JString s)))"
| "extractShape (JBoolean b) = Inr (Tag (getTypeName (JBoolean b)))"
| "extractShape JOther = Inr (Tag (getTypeName JOther))"
| "extractShape (JArray arr) = extractArrayShape arr"
| "extractShape (JObject props) = extractFields props props ([], None)"
| "extractFields jsonObject [] shape = Inr (ShapeObject (fst shape) (snd shape))"
| "extractFields jsonObject ((key, v) # rest) shape =
     (case hasOwnProperty jsonObject key of
        Inl e \<Rightarrow> Inl e
      | Inr False \<Rightarrow> extractFields jsonObject rest shape
      | Inr True \<Rightarrow>
          (case (case v of
                   JObject props \<Rightarrow> extractShape v
                 | JArray arr \<Rightarrow> extractArrayShape arr
                 | _ \<Rightarrow> Inr (Tag (getTypeName v))) of
             Inl e \<Rightarrow> Inl e
           | Inr s \<Rightarrow> extractFields jsonObject rest (assignProp shape key s)))"
  by pat_completeness auto
termination
  by (relation "measure (\<lambda>x. case x of
          Inl arr \<Rightarrow> size_list size arr
        | Inr (Inl v) \<Rightarrow> size v
        | Inr (Inr (obj, rest, shape)) \<Rightarrow> size_list (size_prod (\<lambda>k. 0) size) rest)")
    auto

section \<open>Field paths and type resolution\<close>

text \<open>
  \<open>forInProps shape\<close> lists what \<^verbatim>\<open>for (const key in shape)\<close> visits on an object,
  each key with the value \<^verbatim>\<open>shape[key]\<close> reads there: the own properties first, then
  the enumerable properties inherited through the prototype chain (the indices of an
  array prototype), every key once, an own property shadowing an inherited one.
\<close>

fun shadow :: "(string \<times> 'v) list \<Rightarrow> (string \<times> 'v) list" where
  "shadow [] = []"
| "shadow ((k, v) # ps) = (k, v) # filter (\<lambda>(k', v'). k' \<noteq> k) (shadow ps)"

fun forInProps :: "ShapeValue \<Rightarrow> (string \<times> ShapeValue) list" where
  "forInProps (ShapeObject props proto) =
     shadow (props @ (case proto of None \<Rightarrow> [] | Some p \<Rightarrow> forInProps p))"
| "forInProps (ShapeArray xs) = zip (map string_of_nat [0..<length xs]) xs"
| "forInProps (Tag t) = []"
| "forInProps Null = []"

lemma shadow_subset: "set (shadow ps) \<subseteq> set ps"
proof (induction ps rule: shadow.induct)
  case 1
  show ?case by simp
next
  case (2 k v ps)
  then show ?case by auto
qed

lemma size_props: "(k, v) \<in> set props \<Longrightarrow> size v < Suc (size_list (size_prod (\<lambda>x. 0) size) props)"
  by (induction props) auto

lemma size_elems: "v \<in> set xs \<Longrightarrow> size (v::ShapeValue) < Suc (size_list size xs)"
  by (induction xs) auto

lemma forInProps_size: "(k, v) \<in> set (forInProps s) \<Longrightarrow> size v < size s"
proof (induction s arbitrary: k v rule: forInProps.induct)
  case (1 props proto)
  have "set (forInProps (ShapeObject props proto))
        \<subseteq> set (props @ (case proto of None \<Rightarrow> [] | Some p \<Rightarrow> forInProps p))"
    unfolding forInProps.simps by (rule shadow_subset)
  with "1.prems" have "(k, v) \<in> set props \<union> set (case proto of None \<Rightarrow> [] | Some p \<Rightarrow> forInProps p)"
    by auto
  then consider "(k, v) \<in> set props" | p where "proto = Some p" "(k, v) \<in> set (forInProps p)"
    by (cases proto) auto
  then show ?case
  proof cases
    case 1
    then show ?thesis using size_props [of k v props] by simp
  next
    case 2
    from "1.IH" [OF 2] have "size v < size p" .
    with 2 show ?thesis by simp
  qed
next
  case (2 xs)
  then have "v \<in> set xs" by (auto dest: set_zip_rightD)
  then show ?case using size_elems [of v xs] by simp
next
  case (3 t)
  then show ?case by simp
next
  case 4
  then show ?case by simp
qed

text \<open>
  \<^verbatim>\<open>getFieldPaths(shape, prefix)\<close> (lines 144 to 171). A prefix is truthy when it is
  not empty. The loop over an object adds the path of the key, then every nested path
  other than it.
\<close>

function getFieldPaths :: "ShapeValue \<Rightarrow> string \<Rightarrow> string list" where
  "getFieldPaths (Tag t) prefix = (if prefix \<noteq> [] then set_add [] prefix else [])"
| "getFieldPaths (ShapeArray xs) prefix = (if prefix \<noteq> [] then set_add [] prefix else [])"
| "getFieldPaths (ShapeObject props proto) prefix =
     fold (\<lambda>kv paths.
        let fieldPath = (if prefix \<noteq> [] then prefix @ ''.'' @ fst kv else fst kv);
            nestedPaths = getFieldPaths (snd kv) fieldPath
        in fold (\<lambda>p acc. if p \<noteq> fieldPath then set_add acc p else acc) nestedPaths
             (set_add paths fieldPath))
       (forInProps (ShapeObject props proto)) []"
| "getFieldPaths Null prefix = []"
  by pat_completeness auto
termination
proof (relation "measure (\<lambda>(s, p). size s)", goal_cases)
  case 1
  show ?case by simp
next
  case (2 props proto prefix kv paths fieldPath)
  then have "(fst kv, snd kv) \<in> set (forInProps (ShapeObject props proto))" by simp
  then have "size (snd kv) < size (ShapeObject props proto)" by (rule forInProps_size)
  then show ?case by simp
qed

text \<open>
  The values \<^verbatim>\<open>current\<close> takes in \<^verbatim>\<open>getTypeAtPath\<close> (lines 176 to 192): a shape, the object
  \<^verbatim>\<open>Object.prototype\<close>, or anything else a property read yields (\<^verbatim>\<open>undefined\<close> for
  an absent property, a built-in method or the \<^verbatim>\<open>length\<close> of an array prototype);
  the resolver treats all of the latter alike.
\<close>

datatype node = Shape ShapeValue | ObjectPrototype | Other

text \<open>
  \<^verbatim>\<open>current[part]\<close>. On an object the read follows the prototype chain; the name
  \<^verbatim>\<open>__proto__\<close>, when no property of the chain has it, yields the prototype of the
  object. JavaScript raises a \<^verbatim>\<open>TypeError\<close> for a read on \<^verbatim>\<open>null\<close> or
  \<^verbatim>\<open>undefined\<close>. The model raises on every receiver that is not an object of the
  kind the resolver descends into, which covers these two: a result \<open>Inr\<close> of the
  resolver therefore means that no read raised, and that every read was on such an
  object.
\<close>

fun getProp :: "node \<Rightarrow> string \<Rightarrow> error + node" where
  "getProp (Shape (ShapeObject props proto)) part =
     Inr (case map_of (forInProps (ShapeObject props proto)) part of
            Some v \<Rightarrow> Shape v
          | None \<Rightarrow>
              if part = ''__proto__''
              then (case proto of None \<Rightarrow> ObjectPrototype | Some p \<Rightarrow> Shape p)
              else Other)"
| "getProp ObjectPrototype part = Inr (if part = ''__proto__'' then Shape Null else Other)"
| "getProp current part = Inl TypeError"

text \<open>
  \<^verbatim>\<open>typeof current === 'object' && current !== null && !Array.isArray(current)\<close>.
\<close>

fun isDescendable :: "node \<Rightarrow> bool" where
  "isDescendable (Shape (ShapeObject props proto)) = True"
| "isDescendable ObjectPrototype = True"
| "isDescendable current = False"

text \<open>The classification of the node the walk ends on.\<close>

fun classify :: "node \<Rightarrow> string" where
  "classify (Shape (Tag t)) = t"
| "classify (Shape (ShapeArray xs)) = ''array''"
| "classify (Shape (ShapeObject props proto)) = ''object''"
| "classify ObjectPrototype = ''object''"
| "classify current = ''unknown''"

fun resolve :: "node \<Rightarrow> string list \<Rightarrow> error + string" where
  "resolve current [] = Inr (classify current)"
| "resolve current (part # parts) =
     (if isDescendable current
      then (case getProp current part of Inl e \<Rightarrow> Inl e | Inr next \<Rightarrow> resolve next parts)
      else Inr ''unknown'')"

definition getTypeAtPath :: "ShapeValue \<Rightarrow> string \<Rightarrow> error + string" where
  "getTypeAtPath shape p = resolve (Shape shape) (split CHR ''.'' p)"

section \<open>The diff analysis\<close>

text \<open>
  \<^verbatim>\<open>analyzeEndpointDiffs\<close> (lines 197 to 257) and its two records. A field typed
  \<^verbatim>\<open>number\<close> is a real; the number of shapes is a natural number.
\<close>

record GroupedEndpoint =
  "method" :: string
  path :: string
  requestCount :: real
  shapes :: "ShapeValue list"
  firstSeen :: real
  lastSeen :: real
  statusCodes :: "real list"
  avgDuration :: real

record EndpointDiffAnalysis =
  endpoint :: string
  inconsistencies :: "string list"
  analysedShapes :: "ShapeValue list"
  totalShapes :: nat

text \<open>
  The field \<^verbatim>\<open>shapes\<close> of the result is named \<open>analysedShapes\<close>, the name
  \<open>shapes\<close> being taken by the input record.

  The three collections the first loop fills: \<^verbatim>\<open>allFields\<close>, \<^verbatim>\<open>fieldOccurrences\<close>
  and \<^verbatim>\<open>fieldTypes\<close>.
\<close>

record Tally =
  allFields :: "string list"
  fieldOccurrences :: "string \<rightharpoonup> nat"
  fieldTypes :: "string \<rightharpoonup> string list"

definition emptyTally :: Tally where
  "emptyTally = \<lparr>allFields = [], fieldOccurrences = Map.empty, fieldTypes = Map.empty\<rparr>"

text \<open>A loop whose body can raise: the first error ends it.\<close>

fun foldE :: "('a \<Rightarrow> 's \<Rightarrow> error + 's) \<Rightarrow> 'a list \<Rightarrow> 's \<Rightarrow> error + 's" where
  "foldE f [] s = Inr s"
| "foldE f (x # xs) s = (case f x s of Inl e \<Rightarrow> Inl e | Inr s' \<Rightarrow> foldE f xs s')"

text \<open>The body of the inner loop \<^verbatim>\<open>for (const field of fields)\<close>.\<close>

definition recordField :: "ShapeValue \<Rightarrow> string \<Rightarrow> Tally \<Rightarrow> error + Tally" where
  "recordField shape field t =
     (case getTypeAtPath shape field of
        Inl e \<Rightarrow> Inl e
      | Inr type \<Rightarrow>
          Inr \<lparr>allFields = set_add (allFields t) field,
               fieldOccurrences = (fieldOccurrences t)
                 (field \<mapsto> (case fieldOccurrences t field of None \<Rightarrow> 0 | Some n \<Rightarrow> n) + 1),
               fieldTypes = (fieldTypes t)
                 (field \<mapsto> set_add (case fieldTypes t field of None \<Rightarrow> [] | Some ts \<Rightarrow> ts) type)\<rparr>)"

definition recordShape :: "ShapeValue \<Rightarrow> Tally \<Rightarrow> error + Tally" where
  "recordShape shape t = foldE (recordField shape) (getFieldPaths shape []) t"

definition collect :: "ShapeValue list \<Rightarrow> error + Tally" where
  "collect ss = foldE recordShape ss emptyTally"

text \<open>
  The body of the second loop \<^verbatim>\<open>for (const field of allFields)\<close>, with \<open>n\<close> the
  number of shapes. \<^verbatim>\<open>types.size\<close> raises when the map has no entry for the field.
\<close>

definition detectField :: "nat \<Rightarrow> Tally \<Rightarrow> string \<Rightarrow> string list \<Rightarrow> error + string list" where
  "detectField n t field messages =
     (let occurrences = (case fieldOccurrences t field of None \<Rightarrow> 0 | Some c \<Rightarrow> c);
          messages1 =
            (if occurrences < n then
               (let missingCount = n - occurrences in
                messages @
                [''field '' @ [apostrophe] @ field @ [apostrophe] @ '' missing in '' @
                 string_of_nat missingCount @ '' response'' @
                 (if missingCount > 1 then ''s'' else [])])
             else messages)
      in case fieldTypes t field of
           None \<Rightarrow> Inl TypeError
         | Some types \<Rightarrow>
             Inr (if length types > 1 then
                    messages1 @
                    [''field '' @ [apostrophe] @ field @ [apostrophe] @
                     '' has inconsistent types: '' @ join '', '' types]
                  else messages1))"

definition analyzeEndpointDiffs :: "GroupedEndpoint \<Rightarrow> error + EndpointDiffAnalysis" where
  "analyzeEndpointDiffs ep =
     (if length (shapes ep) \<le> 1 then
        Inr \<lparr>endpoint = method ep @ '' '' @ path ep, inconsistencies = [],
             analysedShapes = shapes ep, totalShapes = length (shapes ep)\<rparr>
      else
        (case collect (shapes ep) of
           Inl e \<Rightarrow> Inl e
         | Inr t \<Rightarrow>
             (case foldE (detectField (length (shapes ep)) t) (allFields t) [] of
                Inl e \<Rightarrow> Inl e
              | Inr messages \<Rightarrow>
                  Inr \<lparr>endpoint = method ep @ '' '' @ path ep, inconsistencies = messages,
                       analysedShapes = shapes ep, totalShapes = length (shapes ep)\<rparr>)))"

section \<open>The notions of the specification\<close>

text \<open>
  The specification speaks of the field universe of an endpoint, of the occurrence
  count and of the type set of a path. These definitions follow its words; the theorems
  below compare them with what the two loops of \<^verbatim>\<open>analyzeEndpointDiffs\<close> compute.
\<close>

definition fieldUniverse :: "ShapeValue list \<Rightarrow> string set" where
  "fieldUniverse ss = (\<Union>s\<in>set ss. set (getFieldPaths s []))"

definition occurrenceCount :: "ShapeValue list \<Rightarrow> string \<Rightarrow> nat" where
  "occurrenceCount ss p = length (filter (\<lambda>s. p \<in> set (getFieldPaths s [])) ss)"

text \<open>
  The tags of a path are resolved in the shapes whose path set contains it, in the
  order of the shapes; the type set of the path holds these tags.
\<close>

definition resolvedTags :: "ShapeValue list \<Rightarrow> string \<Rightarrow> string list" where
  "resolvedTags ss p =
     concat (map (\<lambda>s. case getTypeAtPath s p of Inl e \<Rightarrow> [] | Inr tag \<Rightarrow> [tag])
                 (filter (\<lambda>s. p \<in> set (getFieldPaths s [])) ss))"

definition typeSet :: "ShapeValue list \<Rightarrow> string \<Rightarrow> string set" where
  "typeSet ss p = set (resolvedTags ss p)"

text \<open>
  The order of first appearance: \<open>firstSeen xs\<close> keeps the first occurrence of every
  element of \<open>xs\<close>.
\<close>

fun firstSeen :: "'a list \<Rightarrow> 'a list" where
  "firstSeen [] = []"
| "firstSeen (x # xs) = x # filter (\<lambda>y. y \<noteq> x) (firstSeen xs)"

definition typesFirstSeen :: "ShapeValue list \<Rightarrow> string \<Rightarrow> string list" where
  "typesFirstSeen ss p = firstSeen (resolvedTags ss p)"

definition fieldsFirstSeen :: "ShapeValue list \<Rightarrow> string list" where
  "fieldsFirstSeen ss = firstSeen (concat (map (\<lambda>s. getFieldPaths s []) ss))"

text \<open>The two messages, in the format the specification gives.\<close>

definition missingMessage :: "string \<Rightarrow> nat \<Rightarrow> string" where
  "missingMessage p k =
     ''field '' @ [apostrophe] @ p @ [apostrophe] @ '' missing in '' @ string_of_nat k @
     '' response'' @ (if k > 1 then ''s'' else [])"

definition typeMessage :: "string \<Rightarrow> string list \<Rightarrow> string" where
  "typeMessage p tags =
     ''field '' @ [apostrophe] @ p @ [apostrophe] @ '' has inconsistent types: '' @
     join '', '' tags"

text \<open>
  The messages of one path: the missing-field message when the path is absent from
  some shape, then the type message when its type set has more than one member.
\<close>

definition messagesFor :: "ShapeValue list \<Rightarrow> string \<Rightarrow> string list" where
  "messagesFor ss p =
     (if occurrenceCount ss p < length ss
      then [missingMessage p (length ss - occurrenceCount ss p)] else []) @
     (if 1 < card (typeSet ss p) then [typeMessage p (typesFirstSeen ss p)] else [])"

text \<open>
  What an analysis reports, without the wording: the paths reported missing, each with
  its count, and the paths reported with inconsistent types.
\<close>

definition missingReports :: "ShapeValue list \<Rightarrow> (string \<times> nat) set" where
  "missingReports ss =
     (\<lambda>p. (p, length ss - occurrenceCount ss p)) `
       Set.filter (\<lambda>p. occurrenceCount ss p < length ss) (fieldUniverse ss)"

definition typeReports :: "ShapeValue list \<Rightarrow> string set" where
  "typeReports ss = Set.filter (\<lambda>p. 1 < card (typeSet ss p)) (fieldUniverse ss)"

text \<open>A shape that is a type tag or an array at its root.\<close>

fun nonObjectRoot :: "ShapeValue \<Rightarrow> bool" where
  "nonObjectRoot (Tag t) = True"
| "nonObjectRoot (ShapeArray xs) = True"
| "nonObjectRoot s = False"

text \<open>
  A decoded value in which no object has an own key \<^verbatim>\<open>hasOwnProperty\<close>.
\<close>

fun unshadowed :: "json \<Rightarrow> bool" where
  "unshadowed (JArray arr) = (\<forall>v\<in>set arr. unshadowed v)"
| "unshadowed (JObject props) =
     (map_of props ''hasOwnProperty'' = None \<and> (\<forall>kv\<in>set props. unshadowed (snd kv)))"
| "unshadowed v = True"

text \<open>The tally of the first loop, written with the notions above.\<close>

definition tallyOf :: "ShapeValue list \<Rightarrow> Tally" where
  "tallyOf ss =
     \<lparr>allFields = fieldsFirstSeen ss,
      fieldOccurrences =
        (\<lambda>p. if occurrenceCount ss p = 0 then None else Some (occurrenceCount ss p)),
      fieldTypes =
        (\<lambda>p. if occurrenceCount ss p = 0 then None else Some (typesFirstSeen ss p))\<rparr>"

subsection \<open>Inputs of the examples\<close>

text \<open>The two shapes of the example of the specification.\<close>

definition observedA :: ShapeValue where
  "observedA = ShapeObject [(''id'', Tag ''number''), (''name'', Tag ''string''),
     (''email'', Tag ''string''), (''age'', Tag ''number'')] None"

definition observedB :: ShapeValue where
  "observedB = ShapeObject [(''id'', Tag ''number''), (''name'', Tag ''string''),
     (''age'', Tag ''string'')] None"

text \<open>A field that is a string, then a number, then absent.\<close>

definition drifting :: "ShapeValue list" where
  "drifting = [ShapeObject [(''a'', Tag ''string'')] None,
               ShapeObject [(''a'', Tag ''number'')] None,
               ShapeObject [] None]"

text \<open>A response with a nested user object, and one without it.\<close>

definition withUser :: ShapeValue where
  "withUser = ShapeObject [(''user'', ShapeObject [(''name'', Tag ''string'')] None)] None"

definition withoutUser :: ShapeValue where
  "withoutUser = ShapeObject [(''id'', Tag ''number'')] None"

text \<open>
  The path \<^verbatim>\<open>a.b\<close> as one key that holds a dot, and as a key within an object.
\<close>

definition dottedKey :: ShapeValue where
  "dottedKey = ShapeObject [(''a.b'', Tag ''string'')] None"

definition nestedKey :: ShapeValue where
  "nestedKey = ShapeObject [(''a'', ShapeObject [(''b'', Tag ''number'')] None)] None"

definition endpointOf :: "ShapeValue list \<Rightarrow> GroupedEndpoint" where
  "endpointOf ss =
     \<lparr>method = ''GET'', path = ''/api/users'', requestCount = 2, shapes = ss,
      firstSeen = 0, lastSeen = 0, statusCodes = [200], avgDuration = 0\<rparr>"

section \<open>Auxiliary facts\<close>

subsection \<open>Insertion-ordered sets\<close>

lemma set_set_add: "set (set_add xs x) = insert x (set xs)"
  by (auto simp: set_add_def)

lemma distinct_set_add: "distinct xs \<Longrightarrow> distinct (set_add xs x)"
  by (simp add: set_add_def)

lemma set_firstSeen: "set (firstSeen xs) = set xs"
  by (induction xs) auto

lemma distinct_firstSeen: "distinct (firstSeen xs)"
  by (induction xs) auto

lemma fold_set_add:
  "fold (\<lambda>x acc. set_add acc x) xs acc = acc @ filter (\<lambda>y. y \<notin> set acc) (firstSeen xs)"
proof (induction xs arbitrary: acc)
  case Nil
  show ?case by simp
next
  case (Cons x xs)
  show ?case
  proof (cases "x \<in> set acc")
    case True
    have "filter (\<lambda>y. y \<notin> set acc) (filter (\<lambda>y. y \<noteq> x) (firstSeen xs)) =
          filter (\<lambda>y. y \<notin> set acc) (firstSeen xs)"
      using True by (auto intro: filter_cong)
    with True Cons.IH [of acc] show ?thesis by (simp add: set_add_def)
  next
    case False
    have "filter (\<lambda>y. y \<notin> set (acc @ [x])) (firstSeen xs) =
          filter (\<lambda>y. y \<notin> set acc) (filter (\<lambda>y. y \<noteq> x) (firstSeen xs))"
      by (auto intro: filter_cong)
    with False Cons.IH [of "acc @ [x]"] show ?thesis by (simp add: set_add_def)
  qed
qed

lemma fold_set_add_Nil: "fold (\<lambda>x acc. set_add acc x) xs [] = firstSeen xs"
  by (simp add: fold_set_add)

lemma firstSeen_append: "firstSeen (xs @ ys) = fold (\<lambda>x acc. set_add acc x) ys (firstSeen xs)"
proof -
  have "firstSeen (xs @ ys) = fold (\<lambda>x acc. set_add acc x) (xs @ ys) []"
    by (simp only: fold_set_add_Nil)
  then show ?thesis by (simp add: fold_set_add_Nil)
qed

lemma firstSeen_snoc: "firstSeen (xs @ [x]) = set_add (firstSeen xs) x"
  by (simp add: firstSeen_append)

subsection \<open>Loops that can raise\<close>

lemma foldE_append:
  "foldE f (xs @ ys) s = (case foldE f xs s of Inl e \<Rightarrow> Inl e | Inr s' \<Rightarrow> foldE f ys s')"
  by (induction xs arbitrary: s) (auto split: sum.splits)

subsection \<open>Type resolution returns a tag\<close>

lemma getProp_object: "isDescendable n \<Longrightarrow> \<exists>m. getProp n part = Inr m"
  by (cases n rule: isDescendable.cases) auto

lemma resolve_Inr: "\<exists>tag. resolve n parts = Inr tag"
proof (induction parts arbitrary: n)
  case Nil
  show ?case by simp
next
  case (Cons part parts)
  show ?case
  proof (cases "isDescendable n")
    case True
    then obtain m where "getProp n part = Inr m" using getProp_object by blast
    with True Cons.IH [of m] show ?thesis by simp
  next
    case False
    then show ?thesis by simp
  qed
qed

lemma getTypeAtPath_Inr: "\<exists>tag. getTypeAtPath s p = Inr tag"
  unfolding getTypeAtPath_def by (rule resolve_Inr)

lemma resolve_stuck: "\<not> isDescendable n \<Longrightarrow> resolve n (part # parts) = Inr ''unknown''"
  by simp

lemma resolve_ObjectPrototype: "resolve ObjectPrototype (part # parts) = Inr ''unknown''"
  by (cases parts) simp_all

lemma resolve_not_object:
  assumes "\<And>props proto. n \<noteq> Shape (ShapeObject props proto)"
  shows "resolve n (part # parts) = Inr ''unknown''"
proof (cases n)
  case (Shape s)
  show ?thesis
  proof (cases s)
    case (ShapeObject props proto)
    with Shape assms show ?thesis by blast
  qed (simp_all add: Shape)
next
  case ObjectPrototype
  then show ?thesis by (simp only: resolve_ObjectPrototype)
next
  case Other
  then show ?thesis by simp
qed

lemma resolve_absent:
  assumes "map_of (forInProps (ShapeObject props proto)) key = None"
    and "key \<noteq> ''__proto__''"
  shows "resolve (Shape (ShapeObject props proto)) (key # part # parts) = Inr ''unknown''"
  using assms by simp

subsection \<open>Path sets have no repetition\<close>

lemma distinct_fold_add:
  "distinct acc \<Longrightarrow> distinct (fold (\<lambda>p acc. if P p then set_add acc p else acc) ps acc)"
  by (induction ps arbitrary: acc) (auto simp: distinct_set_add)

lemma distinct_fold_step:
  assumes "\<And>x acc. distinct acc \<Longrightarrow> distinct (f x acc)" and "distinct acc"
  shows "distinct (fold f xs acc)"
  using assms(2) by (induction xs arbitrary: acc) (auto intro: assms(1))

lemma distinct_getFieldPaths: "distinct (getFieldPaths s prefix)"
proof (cases s)
  case (ShapeObject props proto)
  show ?thesis
    unfolding ShapeObject getFieldPaths.simps
    by (rule distinct_fold_step) (auto simp: Let_def intro!: distinct_fold_add distinct_set_add)
qed (auto simp: set_add_def)

lemma nonObjectRoot_paths: "nonObjectRoot s \<Longrightarrow> getFieldPaths s [] = []"
  by (cases s) simp_all

subsection \<open>The notions of the specification\<close>

lemma set_fieldsFirstSeen: "set (fieldsFirstSeen ss) = fieldUniverse ss"
  by (simp add: fieldsFirstSeen_def fieldUniverse_def set_firstSeen)

lemma distinct_fieldsFirstSeen: "distinct (fieldsFirstSeen ss)"
  by (simp add: fieldsFirstSeen_def distinct_firstSeen)

lemma occurrenceCount_pos: "0 < occurrenceCount ss p \<longleftrightarrow> p \<in> fieldUniverse ss"
  by (auto simp: occurrenceCount_def fieldUniverse_def filter_empty_conv)

lemma set_resolvedTags: "set (resolvedTags ss p) = typeSet ss p"
  by (simp add: typeSet_def)

lemma typeSet_iff:
  "tag \<in> typeSet ss p \<longleftrightarrow>
     (\<exists>s\<in>set ss. p \<in> set (getFieldPaths s []) \<and> getTypeAtPath s p = Inr tag)"
  by (auto simp: resolvedTags_def typeSet_def split: sum.splits)

lemma set_typesFirstSeen: "set (typesFirstSeen ss p) = typeSet ss p"
  by (simp add: typesFirstSeen_def set_firstSeen set_resolvedTags)

lemma distinct_typesFirstSeen: "distinct (typesFirstSeen ss p)"
  by (simp add: typesFirstSeen_def distinct_firstSeen)

lemma length_typesFirstSeen: "length (typesFirstSeen ss p) = card (typeSet ss p)"
  using distinct_card [OF distinct_typesFirstSeen, of ss p] by (simp add: set_typesFirstSeen)

lemma occurrenceCount_snoc:
  "occurrenceCount (ss @ [s]) p =
     (if p \<in> set (getFieldPaths s []) then occurrenceCount ss p + 1 else occurrenceCount ss p)"
  by (simp add: occurrenceCount_def)

lemma resolvedTags_snoc:
  "resolvedTags (ss @ [s]) p =
     (if p \<in> set (getFieldPaths s []) then resolvedTags ss p @ [projr (getTypeAtPath s p)]
      else resolvedTags ss p)"
  using getTypeAtPath_Inr [of s p] by (auto simp: resolvedTags_def)

lemma typesFirstSeen_none: "occurrenceCount ss p = 0 \<Longrightarrow> typesFirstSeen ss p = []"
  by (simp add: typesFirstSeen_def occurrenceCount_def resolvedTags_def)

lemma typesFirstSeen_snoc:
  "typesFirstSeen (ss @ [s]) p =
     (if p \<in> set (getFieldPaths s [])
      then set_add (typesFirstSeen ss p) (projr (getTypeAtPath s p))
      else typesFirstSeen ss p)"
  by (simp add: typesFirstSeen_def resolvedTags_snoc firstSeen_snoc)

lemma fieldsFirstSeen_snoc:
  "fieldsFirstSeen (ss @ [s]) =
     fold (\<lambda>f acc. set_add acc f) (getFieldPaths s []) (fieldsFirstSeen ss)"
  by (simp add: fieldsFirstSeen_def firstSeen_append)

subsection \<open>The first loop computes the tally\<close>

lemma recordField_Inr:
  "recordField s f t =
     Inr \<lparr>allFields = set_add (allFields t) f,
          fieldOccurrences = (fieldOccurrences t)
            (f \<mapsto> (case fieldOccurrences t f of None \<Rightarrow> 0 | Some n \<Rightarrow> n) + 1),
          fieldTypes = (fieldTypes t)
            (f \<mapsto> set_add (case fieldTypes t f of None \<Rightarrow> [] | Some ts \<Rightarrow> ts)
                    (projr (getTypeAtPath s f)))\<rparr>"
  using getTypeAtPath_Inr [of s f] by (auto simp: recordField_def)

lemma recordFields_Inr:
  "distinct fs \<Longrightarrow>
   foldE (recordField s) fs t =
     Inr \<lparr>allFields = fold (\<lambda>f acc. set_add acc f) fs (allFields t),
          fieldOccurrences = (\<lambda>p. if p \<in> set fs
             then Some ((case fieldOccurrences t p of None \<Rightarrow> 0 | Some n \<Rightarrow> n) + 1)
             else fieldOccurrences t p),
          fieldTypes = (\<lambda>p. if p \<in> set fs
             then Some (set_add (case fieldTypes t p of None \<Rightarrow> [] | Some ts \<Rightarrow> ts)
                         (projr (getTypeAtPath s p)))
             else fieldTypes t p)\<rparr>"
proof (induction fs arbitrary: t)
  case Nil
  show ?case by simp
next
  case (Cons f fs)
  then have f: "f \<notin> set fs" and d: "distinct fs" by simp_all
  show ?case
    unfolding foldE.simps recordField_Inr [of s f t] sum.case
    by (subst Cons.IH [OF d]) (use f in \<open>auto simp: fun_eq_iff\<close>)
qed

lemma recordShape_tallyOf: "recordShape s (tallyOf ss) = Inr (tallyOf (ss @ [s]))"
proof -
  have "recordShape s (tallyOf ss) =
     Inr \<lparr>allFields = fieldsFirstSeen (ss @ [s]),
          fieldOccurrences = (\<lambda>p. if p \<in> set (getFieldPaths s [])
             then Some ((case fieldOccurrences (tallyOf ss) p of None \<Rightarrow> 0 | Some n \<Rightarrow> n) + 1)
             else fieldOccurrences (tallyOf ss) p),
          fieldTypes = (\<lambda>p. if p \<in> set (getFieldPaths s [])
             then Some (set_add (case fieldTypes (tallyOf ss) p of None \<Rightarrow> [] | Some ts \<Rightarrow> ts)
                         (projr (getTypeAtPath s p)))
             else fieldTypes (tallyOf ss) p)\<rparr>"
    unfolding recordShape_def
    by (subst recordFields_Inr [OF distinct_getFieldPaths])
       (simp add: fieldsFirstSeen_snoc tallyOf_def)
  also have "\<dots> = Inr (tallyOf (ss @ [s]))"
    by (auto simp: tallyOf_def fun_eq_iff occurrenceCount_snoc typesFirstSeen_snoc
        typesFirstSeen_none)
  finally show ?thesis .
qed

lemma tallyOf_Nil: "tallyOf [] = emptyTally"
  by (simp add: tallyOf_def emptyTally_def fieldsFirstSeen_def occurrenceCount_def fun_eq_iff)

lemma collect_tallyOf: "collect ss = Inr (tallyOf ss)"
proof (induction ss rule: rev_induct)
  case Nil
  show ?case by (simp add: collect_def tallyOf_Nil)
next
  case (snoc s ss)
  then show ?case
    by (simp add: collect_def foldE_append recordShape_tallyOf)
qed

subsection \<open>The second loop emits the messages of every field\<close>

lemma detectField_tallyOf:
  assumes "p \<in> fieldUniverse ss"
  shows "detectField (length ss) (tallyOf ss) p messages = Inr (messages @ messagesFor ss p)"
proof -
  from assms have pos: "0 < occurrenceCount ss p" by (simp add: occurrenceCount_pos)
  then show ?thesis
    by (simp add: detectField_def tallyOf_def messagesFor_def missingMessage_def typeMessage_def
        Let_def length_typesFirstSeen)
qed

lemma detect_loop:
  "set fs \<subseteq> fieldUniverse ss \<Longrightarrow>
   foldE (detectField (length ss) (tallyOf ss)) fs messages =
     Inr (messages @ concat (map (messagesFor ss) fs))"
  by (induction fs arbitrary: messages) (simp_all add: detectField_tallyOf)

lemma analyze_many:
  assumes "2 \<le> length (shapes ep)"
  shows "analyzeEndpointDiffs ep =
     Inr \<lparr>endpoint = method ep @ '' '' @ path ep,
          inconsistencies = concat (map (messagesFor (shapes ep)) (fieldsFirstSeen (shapes ep))),
          analysedShapes = shapes ep, totalShapes = length (shapes ep)\<rparr>"
proof -
  have "foldE (detectField (length (shapes ep)) (tallyOf (shapes ep)))
          (allFields (tallyOf (shapes ep))) [] =
        Inr (concat (map (messagesFor (shapes ep)) (fieldsFirstSeen (shapes ep))))"
    using detect_loop [of "fieldsFirstSeen (shapes ep)" "shapes ep" "[]"]
    by (simp add: set_fieldsFirstSeen tallyOf_def)
  with assms show ?thesis
    by (simp add: analyzeEndpointDiffs_def collect_tallyOf)
qed

lemma analyze_many_ex:
  assumes "2 \<le> length (shapes ep)"
  shows "\<exists>r fields. analyzeEndpointDiffs ep = Inr r \<and> distinct fields \<and>
     set fields = fieldUniverse (shapes ep) \<and>
     inconsistencies r = concat (map (messagesFor (shapes ep)) fields) \<and>
     analysedShapes r = shapes ep"
  using analyze_many [OF assms] distinct_fieldsFirstSeen [of "shapes ep"]
    set_fieldsFirstSeen [of "shapes ep"]
  by (intro exI [of _ "\<lparr>endpoint = method ep @ '' '' @ path ep,
        inconsistencies = concat (map (messagesFor (shapes ep)) (fieldsFirstSeen (shapes ep))),
        analysedShapes = shapes ep, totalShapes = length (shapes ep)\<rparr>"]
      exI [of _ "fieldsFirstSeen (shapes ep)"]) simp

lemma analyze_few:
  assumes "length (shapes ep) \<le> 1"
  shows "analyzeEndpointDiffs ep =
     Inr \<lparr>endpoint = method ep @ '' '' @ path ep, inconsistencies = [],
          analysedShapes = shapes ep, totalShapes = length (shapes ep)\<rparr>"
  using assms by (simp add: analyzeEndpointDiffs_def)

lemma concat_messages_empty:
  "(\<And>p. p \<in> fieldUniverse ss \<Longrightarrow> messagesFor ss p = []) \<Longrightarrow>
   concat (map (messagesFor ss) (fieldsFirstSeen ss)) = []"
  by (simp add: set_fieldsFirstSeen)

lemma missing_in_output:
  assumes "2 \<le> length ss" and "p \<in> fieldUniverse ss" and "s \<in> set ss"
    and "p \<notin> set (getFieldPaths s [])"
  shows "\<exists>r. analyzeEndpointDiffs (ep\<lparr>shapes := ss\<rparr>) = Inr r \<and>
     missingMessage p (length ss - occurrenceCount ss p) \<in> set (inconsistencies r) \<and>
     0 < length ss - occurrenceCount ss p"
proof -
  from assms(3,4) have lt: "occurrenceCount ss p < length ss"
    unfolding occurrenceCount_def by (rule length_filter_less)
  then have "missingMessage p (length ss - occurrenceCount ss p) \<in> set (messagesFor ss p)"
    by (simp add: messagesFor_def)
  with assms(2) have "missingMessage p (length ss - occurrenceCount ss p)
      \<in> set (concat (map (messagesFor ss) (fieldsFirstSeen ss)))"
    by (auto simp: set_fieldsFirstSeen)
  with lt show ?thesis
    using analyze_many [of "ep\<lparr>shapes := ss\<rparr>"] assms(1) by simp
qed

subsection \<open>Reordering the shapes\<close>

lemma fieldUniverse_mset:
  assumes "mset ss = mset ss'"
  shows "fieldUniverse ss = fieldUniverse ss'"
  unfolding fieldUniverse_def mset_eq_setD [OF assms] ..

lemma occurrenceCount_mset:
  assumes "mset ss = mset ss'"
  shows "occurrenceCount ss p = occurrenceCount ss' p"
proof -
  from assms have "mset (filter (\<lambda>s. p \<in> set (getFieldPaths s [])) ss) =
                   mset (filter (\<lambda>s. p \<in> set (getFieldPaths s [])) ss')"
    by simp
  then show ?thesis unfolding occurrenceCount_def by (rule mset_eq_length)
qed

lemma typeSet_mset:
  assumes "mset ss = mset ss'"
  shows "typeSet ss p = typeSet ss' p"
proof -
  have "\<And>tag. tag \<in> typeSet ss p \<longleftrightarrow> tag \<in> typeSet ss' p"
    unfolding typeSet_iff mset_eq_setD [OF assms] ..
  then show ?thesis by blast
qed

lemma missingReports_mset:
  assumes "mset ss = mset ss'"
  shows "missingReports ss = missingReports ss'"
proof -
  have "length ss = length ss'" using assms by (rule mset_eq_length)
  moreover have "fieldUniverse ss = fieldUniverse ss'" using assms by (rule fieldUniverse_mset)
  moreover have "\<And>p. occurrenceCount ss p = occurrenceCount ss' p"
    using assms by (rule occurrenceCount_mset)
  ultimately show ?thesis unfolding missingReports_def by simp
qed

lemma typeReports_mset:
  assumes "mset ss = mset ss'"
  shows "typeReports ss = typeReports ss'"
proof -
  have "fieldUniverse ss = fieldUniverse ss'" using assms by (rule fieldUniverse_mset)
  moreover have "\<And>p. typeSet ss p = typeSet ss' p" using assms by (rule typeSet_mset)
  ultimately show ?thesis unfolding typeReports_def by simp
qed

subsection \<open>A population of identical shapes\<close>

lemma typeSet_replicate: "typeSet (replicate n s) p \<subseteq> {projr (getTypeAtPath s p)}"
  by (auto simp: typeSet_iff)

lemma card_typeSet_replicate: "card (typeSet (replicate n s) p) \<le> 1"
proof -
  have "card (typeSet (replicate n s) p) \<le> card {projr (getTypeAtPath s p)}"
    by (rule card_mono) (simp_all add: typeSet_replicate)
  then show ?thesis by simp
qed

lemma occurrenceCount_replicate:
  "p \<in> fieldUniverse (replicate n s) \<Longrightarrow> occurrenceCount (replicate n s) p = n"
  by (auto simp: fieldUniverse_def occurrenceCount_def)

lemma messagesFor_replicate:
  "p \<in> fieldUniverse (replicate n s) \<Longrightarrow> messagesFor (replicate n s) p = []"
  using card_typeSet_replicate [of n s p]
  by (simp add: messagesFor_def occurrenceCount_replicate)

subsection \<open>The examples\<close>

lemma paths_observedA: "getFieldPaths observedA [] = [''id'', ''name'', ''email'', ''age'']"
  by (simp add: observedA_def set_add_def)

lemma paths_observedB: "getFieldPaths observedB [] = [''id'', ''name'', ''age'']"
  by (simp add: observedB_def set_add_def)

lemma types_observedA:
  "getTypeAtPath observedA ''id'' = Inr ''number''"
  "getTypeAtPath observedA ''name'' = Inr ''string''"
  "getTypeAtPath observedA ''email'' = Inr ''string''"
  "getTypeAtPath observedA ''age'' = Inr ''number''"
  by (simp_all add: observedA_def getTypeAtPath_def)

lemma types_observedB:
  "getTypeAtPath observedB ''id'' = Inr ''number''"
  "getTypeAtPath observedB ''name'' = Inr ''string''"
  "getTypeAtPath observedB ''age'' = Inr ''string''"
  by (simp_all add: observedB_def getTypeAtPath_def)

lemma paths_withUser: "getFieldPaths withUser [] = [''user'', ''user.name'']"
  by (simp add: withUser_def set_add_def)

lemma paths_withoutUser: "getFieldPaths withoutUser [] = [''id'']"
  by (simp add: withoutUser_def set_add_def)

lemma type_withUser: "getTypeAtPath withUser ''user.name'' = Inr ''string''"
  by (simp add: withUser_def getTypeAtPath_def)

lemma type_withoutUser: "getTypeAtPath withoutUser ''user.name'' = Inr ''unknown''"
  by (simp add: withoutUser_def getTypeAtPath_def)

lemma distinct_singleton:
  assumes "distinct xs" and "set xs = {a}"
  shows "xs = [a]"
proof (cases xs)
  case Nil
  with assms(2) show ?thesis by simp
next
  case (Cons x ys)
  with assms have x: "x = a" and ys: "set ys \<subseteq> {a}" "a \<notin> set ys" by auto
  have "ys = []"
  proof (cases ys)
    case Nil
    then show ?thesis .
  next
    case (Cons y zs)
    with ys show ?thesis by simp
  qed
  with Cons x show ?thesis by simp
qed

lemma paths_drifting:
  "map (\<lambda>s. getFieldPaths s []) drifting = [[''a''], [''a''], []]"
  by (simp add: drifting_def set_add_def)

lemma types_drifting:
  "getTypeAtPath (drifting ! 0) ''a'' = Inr ''string''"
  "getTypeAtPath (drifting ! 1) ''a'' = Inr ''number''"
  by (simp_all add: drifting_def getTypeAtPath_def)

lemma universe_drifting: "fieldUniverse drifting = {''a''}"
  using paths_drifting by (auto simp: fieldUniverse_def drifting_def)

lemma count_drifting: "occurrenceCount drifting ''a'' = 2"
  using paths_drifting by (simp add: occurrenceCount_def drifting_def)

lemma tags_drifting: "resolvedTags drifting ''a'' = [''string'', ''number'']"
  using paths_drifting types_drifting by (simp add: resolvedTags_def drifting_def)

lemma counts_observed:
  "occurrenceCount [observedA, observedB] ''id'' = 2"
  "occurrenceCount [observedA, observedB] ''name'' = 2"
  "occurrenceCount [observedA, observedB] ''email'' = 1"
  "occurrenceCount [observedA, observedB] ''age'' = 2"
  by (simp_all add: occurrenceCount_def paths_observedA paths_observedB)

lemma tags_observed:
  "resolvedTags [observedA, observedB] ''id'' = [''number'', ''number'']"
  "resolvedTags [observedA, observedB] ''name'' = [''string'', ''string'']"
  "resolvedTags [observedA, observedB] ''email'' = [''string'']"
  "resolvedTags [observedA, observedB] ''age'' = [''number'', ''string'']"
  by (simp_all add: resolvedTags_def paths_observedA paths_observedB types_observedA types_observedB)

lemma universe_observed: "fieldUniverse [observedA, observedB] = {''id'', ''name'', ''email'', ''age''}"
  by (auto simp: fieldUniverse_def paths_observedA paths_observedB)

lemma missingReports_observed: "missingReports [observedA, observedB] = {(''email'', 1)}"
  by (auto simp: missingReports_def universe_observed counts_observed)

lemma typeReports_observed: "typeReports [observedA, observedB] = {''age''}"
  by (auto simp: typeReports_def universe_observed typeSet_def tags_observed)

lemma paths_dottedKey: "getFieldPaths dottedKey [] = [''a.b'']"
  by (simp add: dottedKey_def set_add_def)

lemma paths_nestedKey: "getFieldPaths nestedKey [] = [''a'', ''a.b'']"
  by (simp add: nestedKey_def set_add_def)

lemma type_dottedKey: "getTypeAtPath dottedKey ''a.b'' = Inr ''unknown''"
  by (simp add: dottedKey_def getTypeAtPath_def)

lemma types_nestedKey:
  "getTypeAtPath nestedKey ''a'' = Inr ''object''"
  "getTypeAtPath nestedKey ''a.b'' = Inr ''number''"
  by (simp_all add: nestedKey_def getTypeAtPath_def)

lemma getTypeName_object: "getTypeName v = ''object'' \<longleftrightarrow> (\<exists>props. v = JObject props)"
  by (cases v) simp_all

lemma getTypeName_array: "getTypeName v = ''array'' \<longleftrightarrow> (\<exists>arr. v = JArray arr)"
  by (cases v) simp_all

section \<open>Properties of the extractor and of the analysis\<close>

lemma messagesFor_unfold:
  "messagesFor ss =
     (\<lambda>p. (if occurrenceCount ss p < length ss
            then [''field '' @ [apostrophe] @ p @ [apostrophe] @ '' missing in '' @
                  string_of_nat (length ss - occurrenceCount ss p) @ '' response'' @
                  (if length ss - occurrenceCount ss p > 1 then ''s'' else [])]
            else []) @
           (if 1 < card (typeSet ss p)
            then [''field '' @ [apostrophe] @ p @ [apostrophe] @
                  '' has inconsistent types: '' @ join '', '' (typesFirstSeen ss p)]
            else []))"
  by (simp add: fun_eq_iff messagesFor_def missingMessage_def typeMessage_def)

text \<open>
  C1. For an endpoint with \<open>N \<ge> 2\<close> shapes the analysis returns, and its list of
  inconsistencies is made of the messages of the paths of the field universe, every path
  taken once: for a path whose occurrence count is below \<open>N\<close> the message
  \<^verbatim>\<open>field '<path>' missing in <N - count> response\<close>, with an \<^verbatim>\<open>s\<close> appended exactly
  when the missing count exceeds 1; then, for a path whose type set has more than one
  member, the message \<^verbatim>\<open>field '<path>' has inconsistent types: \<close> followed by the types
  in first-seen order joined by a comma and a space. Neither test looks at the other, so
  one path can yield both messages.
\<close>

theorem emitted_messages:
  assumes "2 \<le> length (shapes ep)"
  shows "\<exists>r fields.
     analyzeEndpointDiffs ep = Inr r \<and>
     distinct fields \<and> set fields = fieldUniverse (shapes ep) \<and>
     inconsistencies r =
       concat (map (\<lambda>p.
         (if occurrenceCount (shapes ep) p < length (shapes ep)
          then [''field '' @ [apostrophe] @ p @ [apostrophe] @ '' missing in '' @
                string_of_nat (length (shapes ep) - occurrenceCount (shapes ep) p) @
                '' response'' @
                (if length (shapes ep) - occurrenceCount (shapes ep) p > 1 then ''s'' else [])]
          else []) @
         (if 1 < card (typeSet (shapes ep) p)
          then [''field '' @ [apostrophe] @ p @ [apostrophe] @ '' has inconsistent types: '' @
                join '', '' (typesFirstSeen (shapes ep) p)]
          else [])) fields)"
proof -
  from analyze_many_ex [OF assms] obtain r fields where
    "analyzeEndpointDiffs ep = Inr r" "distinct fields" "set fields = fieldUniverse (shapes ep)"
    "inconsistencies r = concat (map (messagesFor (shapes ep)) fields)"
    by blast
  then show ?thesis
    unfolding messagesFor_unfold by blast
qed

theorem emitted_messages_witness:
  "2 \<le> length (shapes (endpointOf drifting)) \<and>
   (\<exists>r. analyzeEndpointDiffs (endpointOf drifting) = Inr r \<and>
        inconsistencies r =
          [''field '' @ [apostrophe] @ ''a'' @ [apostrophe] @ '' missing in 1 response'',
           ''field '' @ [apostrophe] @ ''a'' @ [apostrophe] @
             '' has inconsistent types: string, number''])"
proof -
  have many: "2 \<le> length (shapes (endpointOf drifting))"
    by (simp add: endpointOf_def drifting_def)
  have shapes: "shapes (endpointOf drifting) = drifting"
    by (simp add: endpointOf_def)
  from emitted_messages [OF many] obtain r fields where
    r: "analyzeEndpointDiffs (endpointOf drifting) = Inr r"
    and fields: "distinct fields" "set fields = fieldUniverse drifting"
    and messages: "inconsistencies r = concat (map (messagesFor drifting) fields)"
    unfolding shapes messagesFor_unfold [symmetric] by blast
  from fields have "fields = [''a'']"
    unfolding universe_drifting by (rule distinct_singleton)
  moreover have "length drifting = 3" by (simp add: drifting_def)
  moreover have "card (typeSet drifting ''a'') = 2"
    by (simp add: typeSet_def tags_drifting)
  ultimately have "inconsistencies r =
          [''field '' @ [apostrophe] @ ''a'' @ [apostrophe] @ '' missing in 1 response'',
           ''field '' @ [apostrophe] @ ''a'' @ [apostrophe] @
             '' has inconsistent types: string, number'']"
    using messages
    by (simp add: messagesFor_def count_drifting typesFirstSeen_def tags_drifting
        missingMessage_def typeMessage_def string_of_nat.simps digit_char_def)
  with r many show ?thesis by blast
qed

text \<open>
  C2. For the two shapes \<^verbatim>\<open>{id: "number", name: "string", email: "string", age: "number"}\<close>
  and \<^verbatim>\<open>{id: "number", name: "string", age: "string"}\<close> the analysis reports that field
  \<^verbatim>\<open>email\<close> is missing in 1 response and that field \<^verbatim>\<open>age\<close> has the inconsistent
  types \<^verbatim>\<open>number, string\<close>, and nothing else.
\<close>

theorem two_shape_example:
  "analyzeEndpointDiffs (ep\<lparr>shapes := [observedA, observedB]\<rparr>) =
     Inr \<lparr>endpoint = method ep @ '' '' @ path ep,
          inconsistencies =
            [''field '' @ [apostrophe] @ ''email'' @ [apostrophe] @ '' missing in 1 response'',
             ''field '' @ [apostrophe] @ ''age'' @ [apostrophe] @
               '' has inconsistent types: number, string''],
          analysedShapes = [observedA, observedB], totalShapes = 2\<rparr>"
  by (simp add: analyzeEndpointDiffs_def collect_def recordShape_def recordField_def
      paths_observedA paths_observedB types_observedA types_observedB
      emptyTally_def set_add_def detectField_def Let_def string_of_nat.simps digit_char_def)

text \<open>
  C3. For an endpoint with no shape or a single shape the analysis returns an empty list
  of inconsistencies whatever the shape holds, and still fills in the endpoint identity
  (method, a space, path), the shapes as given and their number.
\<close>

theorem few_shapes_no_comparison:
  assumes "length (shapes ep) \<le> 1"
  shows "analyzeEndpointDiffs ep =
     Inr \<lparr>endpoint = method ep @ '' '' @ path ep, inconsistencies = [],
          analysedShapes = shapes ep, totalShapes = length (shapes ep)\<rparr>"
  using assms by (simp add: analyzeEndpointDiffs_def)

theorem few_shapes_no_comparison_witness:
  "length (shapes (endpointOf [observedA])) \<le> 1 \<and>
   analyzeEndpointDiffs (endpointOf [observedA]) =
     Inr \<lparr>endpoint = ''GET /api/users'', inconsistencies = [],
          analysedShapes = [observedA], totalShapes = 1\<rparr>"
proof -
  have few: "length (shapes (endpointOf [observedA])) \<le> 1"
    by (simp add: endpointOf_def)
  from few_shapes_no_comparison [OF few] few show ?thesis
    by (simp add: endpointOf_def)
qed

text \<open>
  C4. The specification holds that the occurrence count of a path is the number of
  shapes whose path set contains it, and that its type set collects the tags resolved
  in the shapes that contain it, a failed resolution being left out and not recorded as
  \<^verbatim>\<open>unknown\<close>. The count is as stated, and a shape whose path set lacks the path
  adds nothing to its types (lemma \<open>tally_counts_and_types\<close>). The exclusion fails
  for a key that holds a dot: the shape \<^verbatim>\<open>{"a.b": "string"}\<close> has \<^verbatim>\<open>a.b\<close> in its
  path set, the resolver splits the path at the dot, finds no property \<^verbatim>\<open>a\<close> and
  answers \<^verbatim>\<open>unknown\<close>, and the first loop records that tag. Beside
  \<^verbatim>\<open>{"a": {"b": "number"}}\<close> the analysis reports the types \<^verbatim>\<open>unknown, number\<close>.
\<close>

theorem dotted_key_records_unknown:
  "''a.b'' \<in> set (getFieldPaths dottedKey []) \<and>
   getTypeAtPath dottedKey ''a.b'' = Inr ''unknown'' \<and>
   (\<exists>t. collect [dottedKey, nestedKey] = Inr t \<and>
        fieldOccurrences t ''a.b'' = Some 2 \<and>
        fieldTypes t ''a.b'' = Some [''unknown'', ''number'']) \<and>
   (\<exists>r. analyzeEndpointDiffs (endpointOf [dottedKey, nestedKey]) = Inr r \<and>
        inconsistencies r =
          [''field '' @ [apostrophe] @ ''a.b'' @ [apostrophe] @
             '' has inconsistent types: unknown, number'',
           ''field '' @ [apostrophe] @ ''a'' @ [apostrophe] @ '' missing in 1 response''])"
  by (simp add: analyzeEndpointDiffs_def endpointOf_def collect_def recordShape_def
      recordField_def paths_dottedKey paths_nestedKey type_dottedKey types_nestedKey
      emptyTally_def set_add_def detectField_def Let_def string_of_nat.simps digit_char_def)

text \<open>
  What holds of the first loop for every list of shapes: the count of a path is the
  number of shapes whose path set contains it, its types are the tags the resolver
  answers in those shapes, and a shape whose path set lacks the path leaves both as
  they were.
\<close>

lemma tally_counts_and_types:
  "\<exists>t. collect ss = Inr t \<and> set (allFields t) = fieldUniverse ss \<and>
     (\<forall>p\<in>fieldUniverse ss.
        fieldOccurrences t p = Some (occurrenceCount ss p) \<and>
        (\<exists>tags. fieldTypes t p = Some tags \<and> distinct tags \<and> set tags = typeSet ss p \<and>
           (\<forall>tag. tag \<in> set tags \<longleftrightarrow>
              (\<exists>s\<in>set ss. p \<in> set (getFieldPaths s []) \<and> getTypeAtPath s p = Inr tag)))) \<and>
     (\<forall>s p. p \<notin> set (getFieldPaths s []) \<longrightarrow>
        (\<exists>t'. collect (ss @ [s]) = Inr t' \<and> fieldTypes t' p = fieldTypes t p \<and>
              fieldOccurrences t' p = fieldOccurrences t p))"
proof -
  have 1: "set (allFields (tallyOf ss)) = fieldUniverse ss"
    by (simp add: tallyOf_def set_fieldsFirstSeen)
  have 2: "\<forall>p\<in>fieldUniverse ss.
        fieldOccurrences (tallyOf ss) p = Some (occurrenceCount ss p) \<and>
        (\<exists>tags. fieldTypes (tallyOf ss) p = Some tags \<and> distinct tags \<and> set tags = typeSet ss p \<and>
           (\<forall>tag. tag \<in> set tags \<longleftrightarrow>
              (\<exists>s\<in>set ss. p \<in> set (getFieldPaths s []) \<and> getTypeAtPath s p = Inr tag)))"
    using occurrenceCount_pos [of ss]
    by (auto simp: tallyOf_def distinct_typesFirstSeen set_typesFirstSeen typeSet_iff)
  have 3: "\<forall>s p. p \<notin> set (getFieldPaths s []) \<longrightarrow>
        (\<exists>t'. collect (ss @ [s]) = Inr t' \<and> fieldTypes t' p = fieldTypes (tallyOf ss) p \<and>
              fieldOccurrences t' p = fieldOccurrences (tallyOf ss) p)"
    by (simp add: collect_tallyOf tallyOf_def occurrenceCount_snoc typesFirstSeen_snoc)
  from 1 2 3 show ?thesis using collect_tallyOf [of ss] by blast
qed

lemma tally_counts_and_types_example:
  "''user.name'' \<in> fieldUniverse [withUser, withoutUser] \<and>
   ''user.name'' \<notin> set (getFieldPaths withoutUser []) \<and>
   getTypeAtPath withoutUser ''user.name'' = Inr ''unknown'' \<and>
   (\<exists>t. collect [withUser, withoutUser] = Inr t \<and>
        fieldOccurrences t ''user.name'' = Some 1 \<and>
        (\<exists>tags. fieldTypes t ''user.name'' = Some tags \<and> set tags = {''string''}) \<and>
        (\<exists>t'. collect [withUser, withoutUser, withoutUser] = Inr t' \<and>
              fieldTypes t' ''user.name'' = fieldTypes t ''user.name'' \<and>
              fieldOccurrences t' ''user.name'' = fieldOccurrences t ''user.name''))"
proof -
  have mem: "''user.name'' \<in> fieldUniverse [withUser, withoutUser]"
    by (simp add: fieldUniverse_def paths_withUser)
  have absent: "''user.name'' \<notin> set (getFieldPaths withoutUser [])"
    by (simp add: paths_withoutUser)
  have count: "occurrenceCount [withUser, withoutUser] ''user.name'' = 1"
    by (simp add: occurrenceCount_def paths_withUser paths_withoutUser)
  have types: "typeSet [withUser, withoutUser] ''user.name'' = {''string''}"
    by (simp add: typeSet_def resolvedTags_def paths_withUser paths_withoutUser type_withUser)
  from tally_counts_and_types [of "[withUser, withoutUser]"] obtain t where
    t: "collect [withUser, withoutUser] = Inr t"
    and all: "\<forall>p\<in>fieldUniverse [withUser, withoutUser].
        fieldOccurrences t p = Some (occurrenceCount [withUser, withoutUser] p) \<and>
        (\<exists>tags. fieldTypes t p = Some tags \<and> distinct tags \<and>
                set tags = typeSet [withUser, withoutUser] p \<and>
           (\<forall>tag. tag \<in> set tags \<longleftrightarrow>
              (\<exists>s\<in>set [withUser, withoutUser].
                 p \<in> set (getFieldPaths s []) \<and> getTypeAtPath s p = Inr tag)))"
    and more: "\<forall>s p. p \<notin> set (getFieldPaths s []) \<longrightarrow>
        (\<exists>t'. collect ([withUser, withoutUser] @ [s]) = Inr t' \<and>
              fieldTypes t' p = fieldTypes t p \<and> fieldOccurrences t' p = fieldOccurrences t p)"
    by blast
  from all mem have one: "fieldOccurrences t ''user.name'' = Some 1 \<and>
      (\<exists>tags. fieldTypes t ''user.name'' = Some tags \<and> set tags = {''string''})"
    unfolding count [symmetric] types [symmetric] by blast
  from more absent have "\<exists>t'. collect ([withUser, withoutUser] @ [withoutUser]) = Inr t' \<and>
      fieldTypes t' ''user.name'' = fieldTypes t ''user.name'' \<and>
      fieldOccurrences t' ''user.name'' = fieldOccurrences t ''user.name''"
    by blast
  then have "\<exists>t'. collect [withUser, withoutUser, withoutUser] = Inr t' \<and>
      fieldTypes t' ''user.name'' = fieldTypes t ''user.name'' \<and>
      fieldOccurrences t' ''user.name'' = fieldOccurrences t ''user.name''"
    by simp
  with t one mem absent type_withoutUser show ?thesis by blast
qed

text \<open>
  C5. The first shape is no pivot of the comparison. For two endpoints whose shape lists
  are permutations of one another, with at least 2 shapes, both analyses return the
  messages of the paths of their field universe and carry their own shapes through, and
  they report the same paths as missing with the same missing counts and the same
  paths as having inconsistent types.
\<close>

theorem permutation_invariant:
  assumes "mset (shapes ep) = mset (shapes ep')" and "2 \<le> length (shapes ep)"
  shows "(\<exists>r fields. analyzeEndpointDiffs ep = Inr r \<and> distinct fields \<and>
            set fields = fieldUniverse (shapes ep) \<and>
            inconsistencies r = concat (map (messagesFor (shapes ep)) fields) \<and>
            analysedShapes r = shapes ep) \<and>
         (\<exists>r' fields'. analyzeEndpointDiffs ep' = Inr r' \<and> distinct fields' \<and>
            set fields' = fieldUniverse (shapes ep') \<and>
            inconsistencies r' = concat (map (messagesFor (shapes ep')) fields') \<and>
            analysedShapes r' = shapes ep') \<and>
         missingReports (shapes ep) = missingReports (shapes ep') \<and>
         typeReports (shapes ep) = typeReports (shapes ep')"
proof -
  have "length (shapes ep) = length (shapes ep')" using assms(1) by (rule mset_eq_length)
  with assms(2) have many: "2 \<le> length (shapes ep')" by simp
  show ?thesis
  proof (intro conjI)
    show "\<exists>r fields. analyzeEndpointDiffs ep = Inr r \<and> distinct fields \<and>
            set fields = fieldUniverse (shapes ep) \<and>
            inconsistencies r = concat (map (messagesFor (shapes ep)) fields) \<and>
            analysedShapes r = shapes ep"
      using assms(2) by (rule analyze_many_ex)
    show "\<exists>r' fields'. analyzeEndpointDiffs ep' = Inr r' \<and> distinct fields' \<and>
            set fields' = fieldUniverse (shapes ep') \<and>
            inconsistencies r' = concat (map (messagesFor (shapes ep')) fields') \<and>
            analysedShapes r' = shapes ep'"
      using many by (rule analyze_many_ex)
    show "missingReports (shapes ep) = missingReports (shapes ep')"
      using assms(1) by (rule missingReports_mset)
    show "typeReports (shapes ep) = typeReports (shapes ep')"
      using assms(1) by (rule typeReports_mset)
  qed
qed

theorem permutation_invariant_witness:
  "mset (shapes (endpointOf [observedA, observedB])) =
     mset (shapes (endpointOf [observedB, observedA])) \<and>
   2 \<le> length (shapes (endpointOf [observedA, observedB])) \<and>
   missingReports [observedB, observedA] = {(''email'', 1)} \<and>
   typeReports [observedB, observedA] = {''age''} \<and>
   (\<exists>r. analyzeEndpointDiffs (endpointOf [observedB, observedA]) = Inr r \<and>
        analysedShapes r = [observedB, observedA])"
proof -
  have perm: "mset (shapes (endpointOf [observedA, observedB])) =
      mset (shapes (endpointOf [observedB, observedA]))"
    by (simp add: endpointOf_def)
  have many: "2 \<le> length (shapes (endpointOf [observedA, observedB]))"
    by (simp add: endpointOf_def)
  have shapes: "shapes (endpointOf [observedA, observedB]) = [observedA, observedB]"
    "shapes (endpointOf [observedB, observedA]) = [observedB, observedA]"
    by (simp_all add: endpointOf_def)
  from permutation_invariant [OF perm many] perm many show ?thesis
    unfolding shapes missingReports_observed typeReports_observed by metis
qed

text \<open>
  C6. \<^verbatim>\<open>extractShape\<close> hands an array to array-shape extraction. It maps the empty
  array to the one-element sequence holding \<^verbatim>\<open>unknown\<close>. For a non-empty array the
  result depends on the first element only: an object goes through the extraction of
  objects and the result is wrapped in a one-element sequence, an array goes through
  array-shape extraction and is wrapped, and any other element yields its type tag,
  wrapped.
\<close>

theorem array_shape_from_first_element:
  "extractShape (JArray arr) = extractArrayShape arr \<and>
   extractShape (JArray []) = Inr (ShapeArray [Tag ''unknown'']) \<and>
   extractShape (JArray (x # xs)) = extractShape (JArray [x]) \<and>
   (getTypeName x = ''object'' \<longrightarrow>
      extractShape (JArray (x # xs)) = wrap (extractShape x)) \<and>
   (getTypeName x = ''array'' \<longrightarrow>
      (\<exists>inner. x = JArray inner \<and>
         extractShape (JArray (x # xs)) = wrap (extractArrayShape inner))) \<and>
   (getTypeName x \<noteq> ''object'' \<and> getTypeName x \<noteq> ''array'' \<longrightarrow>
      extractShape (JArray (x # xs)) = Inr (ShapeArray [Tag (getTypeName x)])) \<and>
   extractArrayShape [] = Inr (ShapeArray [Tag ''unknown'']) \<and>
   extractArrayShape (x # xs) = extractArrayShape [x]"
  by (cases x) simp_all

theorem array_shape_from_first_element_witness:
  "extractShape (JArray []) = Inr (ShapeArray [Tag ''unknown'']) \<and>
   getTypeName (JObject [(''id'', JNumber 1)]) = ''object'' \<and>
   extractShape (JArray [JObject [(''id'', JNumber 1)], JString ''second'']) =
     Inr (ShapeArray [ShapeObject [(''id'', Tag ''number'')] None]) \<and>
   getTypeName (JArray [JBoolean True]) = ''array'' \<and>
   extractShape (JArray [JArray [JBoolean True], JNull]) =
     Inr (ShapeArray [ShapeArray [Tag ''boolean'']]) \<and>
   getTypeName (JString ''first'') \<noteq> ''object'' \<and>
   getTypeName (JString ''first'') \<noteq> ''array'' \<and>
   extractShape (JArray [JString ''first'', JNumber 2]) = Inr (ShapeArray [Tag ''string''])"
  using array_shape_from_first_element
      [of "[]" "JObject [(''id'', JNumber 1)]" "[JString ''second'']"]
    array_shape_from_first_element [of "[]" "JArray [JBoolean True]" "[JNull]"]
    array_shape_from_first_element [of "[]" "JString ''first''" "[JNumber 2]"]
  by (simp add: wrap_def hasOwnProperty_def)

text \<open>
  C7. The specification holds the extractor total over decoded JSON values, with
  \<^verbatim>\<open>null\<close> tagged \<^verbatim>\<open>null\<close>, an undefined value \<^verbatim>\<open>undefined\<close>, every number
  \<^verbatim>\<open>number\<close>, a string \<^verbatim>\<open>string\<close>, a boolean \<^verbatim>\<open>boolean\<close> and an unclassifiable
  value \<^verbatim>\<open>unknown\<close>. The tags are as stated (lemma \<open>primitive_tags\<close>). Totality
  fails: on the decoded object \<^verbatim>\<open>{"hasOwnProperty": 1}\<close> the extraction raises a
  \<^verbatim>\<open>TypeError\<close>, because the loop calls \<^verbatim>\<open>jsonObject.hasOwnProperty(key)\<close> and the
  method it finds on the object is the number 1.
\<close>

theorem own_hasOwnProperty_raises:
  "extractShape (JObject [(''hasOwnProperty'', JNumber 1)]) = Inl TypeError"
  by (simp add: hasOwnProperty_def)

lemma primitive_tags:
  "extractShape JNull = Inr (Tag ''null'')"
  "extractShape JUndefined = Inr (Tag ''undefined'')"
  "extractShape (JNumber x) = Inr (Tag ''number'')"
  "extractShape (JString s) = Inr (Tag ''string'')"
  "extractShape (JBoolean b) = Inr (Tag ''boolean'')"
  "extractShape JOther = Inr (Tag ''unknown'')"
  by simp_all

lemma extraction_raises_when_shadowed:
  "map_of props ''hasOwnProperty'' \<noteq> None \<Longrightarrow> extractShape (JObject props) = Inl TypeError"
  by (cases props) (auto simp: hasOwnProperty_def)

lemma extraction_total_unshadowed:
  "(\<forall>v\<in>set arr. unshadowed v) \<longrightarrow> (\<exists>s. extractArrayShape arr = Inr s)"
  "unshadowed v \<longrightarrow> (\<exists>s. extractShape v = Inr s)"
  "map_of jsonObject ''hasOwnProperty'' = None \<and> (\<forall>kv\<in>set rest. unshadowed (snd kv)) \<longrightarrow>
     (\<exists>s. extractFields jsonObject rest shape = Inr s)"
proof (induction arr and v and jsonObject rest shape rule: extractArrayShape_extractShape_extractFields.induct)
  case (19 jsonObject key v rest shape)
  show ?case
  proof (intro impI)
    assume a: "map_of jsonObject ''hasOwnProperty'' = None \<and>
               (\<forall>kv\<in>set ((key, v) # rest). unshadowed (snd kv))"
    then have h: "hasOwnProperty jsonObject key = Inr (key \<in> fst ` set jsonObject)"
      by (simp add: hasOwnProperty_def)
    from a have v: "unshadowed v" and rest: "\<forall>kv\<in>set rest. unshadowed (snd kv)" by simp_all
    show "\<exists>s. extractFields jsonObject ((key, v) # rest) shape = Inr s"
    proof (cases "key \<in> fst ` set jsonObject")
      case False
      with h have hf: "hasOwnProperty jsonObject key = Inr False" by simp
      from "19.IH"(4) [OF hf refl] a rest show ?thesis by (simp add: hf)
    next
      case True
      with h have ht: "hasOwnProperty jsonObject key = Inr True" by simp
      have "\<exists>s. (case v of JObject props \<Rightarrow> extractShape v
                   | JArray arr \<Rightarrow> extractArrayShape arr
                   | _ \<Rightarrow> Inr (Tag (getTypeName v))) = Inr s"
      proof (cases v)
        case (JObject props)
        with "19.IH"(2) [OF ht refl] v show ?thesis by simp
      next
        case (JArray arr)
        with "19.IH"(1) [OF ht refl] v show ?thesis by simp
      qed simp_all
      then obtain s where s: "(case v of JObject props \<Rightarrow> extractShape v
                   | JArray arr \<Rightarrow> extractArrayShape arr
                   | _ \<Rightarrow> Inr (Tag (getTypeName v))) = Inr s" by blast
      from "19.IH"(3) [OF ht refl s] a rest show ?thesis by (simp add: ht s)
    qed
  qed
qed (auto simp: wrap_def)

text \<open>
  C8. Type resolution returns a tag for every shape and path; it never raises. Whenever
  the walk stands, with a segment still to read, on a node that is not an object shape
  it answers \<^verbatim>\<open>unknown\<close>, and so it does when a segment that is not the last names a
  property the object lacks (a missing intermediate object). A path of the field
  universe that a shape lacks is reported through the occurrence count: the analysis of
  at least 2 shapes holds the missing-field message of the path, with a positive count.
\<close>

theorem resolver_never_raises:
  "(\<exists>tag. getTypeAtPath s p = Inr tag) \<and>
   (\<forall>n part parts. (\<forall>props proto. n \<noteq> Shape (ShapeObject props proto)) \<longrightarrow>
      resolve n (part # parts) = Inr ''unknown'') \<and>
   (\<forall>props proto key part parts.
      map_of (forInProps (ShapeObject props proto)) key = None \<and> key \<noteq> ''__proto__'' \<longrightarrow>
      resolve (Shape (ShapeObject props proto)) (key # part # parts) = Inr ''unknown'') \<and>
   (\<forall>ss ep. 2 \<le> length ss \<and> p \<in> fieldUniverse ss \<and> s \<in> set ss \<and>
      p \<notin> set (getFieldPaths s []) \<longrightarrow>
      (\<exists>r. analyzeEndpointDiffs (ep\<lparr>shapes := ss\<rparr>) = Inr r \<and>
           missingMessage p (length ss - occurrenceCount ss p) \<in> set (inconsistencies r) \<and>
           0 < length ss - occurrenceCount ss p))"
proof (intro conjI allI impI)
  show "\<exists>tag. getTypeAtPath s p = Inr tag" by (rule getTypeAtPath_Inr)
next
  fix n part parts
  assume "\<forall>props proto. n \<noteq> Shape (ShapeObject props proto)"
  then show "resolve n (part # parts) = Inr ''unknown''" by (intro resolve_not_object) blast
next
  fix props proto key part parts
  assume "map_of (forInProps (ShapeObject props proto)) key = None \<and> key \<noteq> ''__proto__''"
  then show "resolve (Shape (ShapeObject props proto)) (key # part # parts) = Inr ''unknown''"
    using resolve_absent by blast
next
  fix ss ep
  assume "2 \<le> length ss \<and> p \<in> fieldUniverse ss \<and> s \<in> set ss \<and> p \<notin> set (getFieldPaths s [])"
  then show "\<exists>r. analyzeEndpointDiffs (ep\<lparr>shapes := ss\<rparr>) = Inr r \<and>
           missingMessage p (length ss - occurrenceCount ss p) \<in> set (inconsistencies r) \<and>
           0 < length ss - occurrenceCount ss p"
    using missing_in_output [of ss p s ep] by blast
qed

theorem resolver_never_raises_witness:
  "(\<forall>props proto. Shape (Tag ''string'') \<noteq> Shape (ShapeObject props proto)) \<and>
   resolve (Shape (Tag ''string'')) [''length''] = Inr ''unknown'' \<and>
   map_of (forInProps (ShapeObject [(''id'', Tag ''number'')] None)) ''user'' = None \<and>
   resolve (Shape (ShapeObject [(''id'', Tag ''number'')] None)) [''user'', ''name''] =
     Inr ''unknown'' \<and>
   getTypeAtPath withoutUser ''user.name'' = Inr ''unknown'' \<and>
   ''user.name'' \<in> fieldUniverse [withUser, withoutUser] \<and>
   ''user.name'' \<notin> set (getFieldPaths withoutUser []) \<and>
   (\<exists>r. analyzeEndpointDiffs (endpointOf [withUser, withoutUser]) = Inr r \<and>
        missingMessage ''user.name'' 1 \<in> set (inconsistencies r))"
proof -
  have stuck: "\<forall>props proto. Shape (Tag ''string'') \<noteq> Shape (ShapeObject props proto)" by simp
  have lacks: "map_of (forInProps (ShapeObject [(''id'', Tag ''number'')] None)) ''user'' = None"
    by simp
  have mem: "''user.name'' \<in> fieldUniverse [withUser, withoutUser]"
    by (simp add: fieldUniverse_def paths_withUser)
  have absent: "''user.name'' \<notin> set (getFieldPaths withoutUser [])"
    by (simp add: paths_withoutUser)
  have count: "occurrenceCount [withUser, withoutUser] ''user.name'' = 1"
    by (simp add: occurrenceCount_def paths_withUser paths_withoutUser)
  have ep: "(endpointOf [])\<lparr>shapes := [withUser, withoutUser]\<rparr> = endpointOf [withUser, withoutUser]"
    by (simp add: endpointOf_def)
  note inst = resolver_never_raises [of withoutUser "''user.name''"]
  from inst have a: "resolve (Shape (Tag ''string'')) [''length''] = Inr ''unknown''"
    using stuck by blast
  from inst have b: "resolve (Shape (ShapeObject [(''id'', Tag ''number'')] None)) [''user'', ''name''] =
     Inr ''unknown''"
    using lacks by simp
  from inst have "2 \<le> length [withUser, withoutUser] \<and>
      ''user.name'' \<in> fieldUniverse [withUser, withoutUser] \<and>
      withoutUser \<in> set [withUser, withoutUser] \<and>
      ''user.name'' \<notin> set (getFieldPaths withoutUser []) \<longrightarrow>
      (\<exists>r. analyzeEndpointDiffs ((endpointOf [])\<lparr>shapes := [withUser, withoutUser]\<rparr>) = Inr r \<and>
           missingMessage ''user.name''
             (length [withUser, withoutUser] - occurrenceCount [withUser, withoutUser] ''user.name'')
             \<in> set (inconsistencies r) \<and>
           0 < length [withUser, withoutUser] - occurrenceCount [withUser, withoutUser] ''user.name'')"
    by blast
  with mem absent have c: "\<exists>r. analyzeEndpointDiffs (endpointOf [withUser, withoutUser]) = Inr r \<and>
        missingMessage ''user.name'' 1 \<in> set (inconsistencies r)"
    unfolding ep count by simp
  from stuck a lacks b type_withoutUser mem absent c show ?thesis by blast
qed

text \<open>
  C9. For every shape \<open>s\<close> and every \<open>n\<close>, the analysis of \<open>n\<close> copies of \<open>s\<close> returns
  an empty list of inconsistencies: every path occurs in all the shapes and resolves to
  one type.
\<close>

theorem uniform_population:
  "\<exists>r. analyzeEndpointDiffs (ep\<lparr>shapes := replicate n s\<rparr>) = Inr r \<and> inconsistencies r = []"
proof (cases "n \<le> 1")
  case True
  then show ?thesis using analyze_few [of "ep\<lparr>shapes := replicate n s\<rparr>"] by simp
next
  case False
  then have "2 \<le> length (shapes (ep\<lparr>shapes := replicate n s\<rparr>))" by simp
  from analyze_many [OF this] show ?thesis
    by (simp add: concat_messages_empty messagesFor_replicate)
qed

text \<open>
  C10. Type drift at the root is not reported. When every shape of an endpoint is a
  type tag or an array at its root, the path set of every shape is empty, so is the
  field universe, and the analysis returns an empty list of inconsistencies, also when
  the root types differ (a bare number in one response, a bare string in another).
\<close>

theorem root_drift_unreported:
  assumes "\<forall>s\<in>set (shapes ep). nonObjectRoot s"
  shows "(\<forall>s\<in>set (shapes ep). getFieldPaths s [] = []) \<and>
         fieldUniverse (shapes ep) = {} \<and>
         (\<exists>r. analyzeEndpointDiffs ep = Inr r \<and> inconsistencies r = [])"
proof -
  from assms have paths: "\<forall>s\<in>set (shapes ep). getFieldPaths s [] = []"
    by (simp add: nonObjectRoot_paths)
  then have univ: "fieldUniverse (shapes ep) = {}" by (simp add: fieldUniverse_def)
  have "\<exists>r. analyzeEndpointDiffs ep = Inr r \<and> inconsistencies r = []"
  proof (cases "length (shapes ep) \<le> 1")
    case True
    then show ?thesis using analyze_few [of ep] by simp
  next
    case False
    then have "2 \<le> length (shapes ep)" by simp
    from analyze_many [OF this] univ show ?thesis
      by (simp add: set_fieldsFirstSeen)
  qed
  with paths univ show ?thesis by blast
qed

theorem root_drift_unreported_witness:
  "nonObjectRoot (Tag ''number'') \<and> nonObjectRoot (Tag ''string'') \<and>
   getFieldPaths (Tag ''number'') [] = [] \<and> getFieldPaths (Tag ''string'') [] = [] \<and>
   fieldUniverse [Tag ''number'', Tag ''string''] = {} \<and>
   (\<exists>r. analyzeEndpointDiffs (endpointOf [Tag ''number'', Tag ''string'']) = Inr r \<and>
        inconsistencies r = [])"
proof -
  have roots: "\<forall>s\<in>set (shapes (endpointOf [Tag ''number'', Tag ''string''])). nonObjectRoot s"
    by (simp add: endpointOf_def)
  have shapes: "shapes (endpointOf [Tag ''number'', Tag ''string'']) = [Tag ''number'', Tag ''string'']"
    by (simp add: endpointOf_def)
  from root_drift_unreported [OF roots] show ?thesis
    unfolding shapes by simp
qed

end
